theory Spec2Isabelle
  imports Complex_Main "HOL-Library.Word"
begin

section \<open>The WebSocket load benchmark (\<^verbatim>\<open>websocket_benchmark.py\<close>)\<close>

text \<open>
  A shallow embedding of the parts of \<^verbatim>\<open>websocket_benchmark.py\<close> that the
  specification talks about: the wire encoding of the Input frame, the life of one
  \<^verbatim>\<open>BenchmarkBot\<close> (its \<^verbatim>\<open>measure_latency\<close> task and the background
  \<^verbatim>\<open>receive_loop\<close> task), the aggregation at the end of \<^verbatim>\<open>run_benchmark\<close>
  and the control flow of \<^verbatim>\<open>main\<close>.
\<close>

subsection \<open>Python errors\<close>

datatype py_error =
    IndexError | ValueError | ZeroDivisionError | StructError | EOFError | KeyboardInterrupt

text \<open>Sequencing of fallible steps: the first raise wins.\<close>

definition and_then :: "py_error + 'a \<Rightarrow> ('a \<Rightarrow> py_error + 'b) \<Rightarrow> py_error + 'b" where
  "and_then r f = (case r of Inl e \<Rightarrow> Inl e | Inr v \<Rightarrow> f v)"

subsection \<open>Wire codec\<close>

type_synonym byte = "8 word"

text \<open>
  A float argument of \<^verbatim>\<open>struct.pack\<close> under the code \<^verbatim>\<open>f\<close> is written as
  the four bytes of its IEEE-754 binary32 value. The rounding from Python's double to
  binary32 is outside the model: an axis is represented by its binary32 bit pattern.
\<close>

type_synonym float32 = "32 word"

datatype ServerBound = Init | Input | Spawn

fun ServerBound_value :: "ServerBound \<Rightarrow> int" where
  "ServerBound_value Init = 0"
| "ServerBound_value Input = 1"
| "ServerBound_value Spawn = 2"

datatype InputFlags = LeftClick | Up | Left | Down | Right

fun InputFlags_value :: "InputFlags \<Rightarrow> int" where
  "InputFlags_value LeftClick = 1"
| "InputFlags_value Up = 2"
| "InputFlags_value Left = 4"
| "InputFlags_value Down = 8"
| "InputFlags_value Right = 16"

text \<open>Four bytes, least significant first (the \<^verbatim>\<open><\<close> of the format string).\<close>

definition le_bytes32 :: "32 word \<Rightarrow> byte list" where
  "le_bytes32 w = [ucast w, ucast (drop_bit 8 w), ucast (drop_bit 16 w), ucast (drop_bit 24 w)]"

text \<open>\<^verbatim>\<open>B\<close>: unsigned char, one byte; \<^verbatim>\<open>struct.error\<close> outside 0..255.\<close>

definition pack_B :: "int \<Rightarrow> py_error + byte list" where
  "pack_B v = (if 0 \<le> v \<and> v \<le> 255 then Inr [word_of_int v] else Inl StructError)"

text \<open>\<^verbatim>\<open>i\<close>: signed int, four bytes; \<^verbatim>\<open>struct.error\<close> outside the 32-bit range.\<close>

definition pack_i :: "int \<Rightarrow> py_error + byte list" where
  "pack_i v = (if - (2 ^ 31) \<le> v \<and> v < 2 ^ 31 then Inr (le_bytes32 (word_of_int v))
               else Inl StructError)"

text \<open>\<^verbatim>\<open>f\<close>: float, four bytes.\<close>

definition pack_f :: "float32 \<Rightarrow> byte list" where
  "pack_f x = le_bytes32 x"

text \<open>\<^verbatim>\<open>struct.pack('<Biffff', tag, flags, a, b, c, d)\<close>: no padding between fields.\<close>

definition struct_pack_Biffff ::
  "int \<Rightarrow> int \<Rightarrow> float32 \<Rightarrow> float32 \<Rightarrow> float32 \<Rightarrow> float32 \<Rightarrow> py_error + byte list" where
  "struct_pack_Biffff tag flags a b c d =
     and_then (pack_B tag) (\<lambda>t.
     and_then (pack_i flags) (\<lambda>f.
       Inr (t @ f @ pack_f a @ pack_f b @ pack_f c @ pack_f d)))"

text \<open>
  The flags of one tick: \<^verbatim>\<open>random.choice([...]) if random.random() > 0.5 else 0\<close>.
  The random draw is the argument: \<open>None\<close> is the branch that yields 0.
\<close>

definition choose_flags :: "InputFlags option \<Rightarrow> int" where
  "choose_flags pick = (case pick of None \<Rightarrow> 0 | Some f \<Rightarrow> InputFlags_value f)"

text \<open>The \<^verbatim>\<open>input_packet\<close> built in the main loop of \<^verbatim>\<open>measure_latency\<close>.\<close>

definition input_packet ::
  "int \<Rightarrow> float32 \<Rightarrow> float32 \<Rightarrow> float32 \<Rightarrow> float32 \<Rightarrow> py_error + byte list" where
  "input_packet flags a b c d = struct_pack_Biffff (ServerBound_value Input) flags a b c d"

text \<open>
  The layout the specification's protocol table gives for the Input message, for
  comparison with \<open>input_packet\<close>: tag, one flags byte, four floats.
\<close>

definition spec_Input_frame ::
  "byte \<Rightarrow> float32 \<Rightarrow> float32 \<Rightarrow> float32 \<Rightarrow> float32 \<Rightarrow> byte list" where
  "spec_Input_frame flags a b c d =
     [1, flags] @ le_bytes32 a @ le_bytes32 b @ le_bytes32 c @ le_bytes32 d"

subsection \<open>One bot and its two tasks\<close>

text \<open>
  The fields of \<^verbatim>\<open>BenchmarkBot\<close> that the program reads again after setting them.
  \<open>websocket\<close> says whether the connection handle is set; \<^verbatim>\<open>url\<close> and
  \<^verbatim>\<open>start_time\<close> are never read back and are left out. Latencies are
  milliseconds; they are modelled as reals.
\<close>

record BenchmarkBot =
  bot_id :: nat
  websocket :: bool
  running :: bool
  connected :: bool
  spawned :: bool
  latencies :: "real list"
  packets_sent :: nat
  packets_received :: nat

text \<open>\<^verbatim>\<open>BenchmarkBot.__init__\<close>\<close>

definition new_bot :: "nat \<Rightarrow> BenchmarkBot" where
  "new_bot i = \<lparr>bot_id = i, websocket = False, running = True, connected = False,
                spawned = False, latencies = [], packets_sent = 0, packets_received = 0\<rparr>"

text \<open>
  asyncio runs the tasks of one bot cooperatively: a task runs without interruption from
  one \<^verbatim>\<open>await\<close> to the next. A state of the session therefore records, for the
  \<^verbatim>\<open>measure_latency\<close> task and for the \<^verbatim>\<open>receive_loop\<close> task, the
  \<^verbatim>\<open>await\<close> at which the task is suspended.
\<close>

datatype main_pc =
    NotStarted
  | AwaitConnect          \<comment> \<open>\<^verbatim>\<open>connect\<close>: \<^verbatim>\<open>wait_for(websockets.connect(...), 5.0)\<close>\<close>
  | AwaitInitSend         \<comment> \<open>\<^verbatim>\<open>websocket.send(init_packet)\<close>\<close>
  | AwaitAccept nat       \<comment> \<open>\<^verbatim>\<open>wait_for(websocket.recv(), 0.5)\<close>, with the iterations still to come\<close>
  | AwaitSettle           \<comment> \<open>\<^verbatim>\<open>asyncio.sleep(0.1)\<close>\<close>
  | AwaitSpawn1           \<comment> \<open>the send inside the first \<^verbatim>\<open>spawn_bot\<close>\<close>
  | AwaitSleep1           \<comment> \<open>\<^verbatim>\<open>asyncio.sleep(0.2)\<close>\<close>
  | AwaitSpawn2           \<comment> \<open>the send inside the second \<^verbatim>\<open>spawn_bot\<close>\<close>
  | AwaitSleep2           \<comment> \<open>\<^verbatim>\<open>asyncio.sleep(0.5)\<close>\<close>
  | AwaitInput            \<comment> \<open>\<^verbatim>\<open>websocket.send(input_packet)\<close>\<close>
  | AwaitTick             \<comment> \<open>\<^verbatim>\<open>asyncio.sleep(0.05)\<close>\<close>
  | AwaitClose            \<comment> \<open>\<^verbatim>\<open>disconnect\<close>: \<^verbatim>\<open>wait_for(websocket.close(), 1.0)\<close>\<close>
  | Returned

datatype recv_pc =
    NotCreated
  | Scheduled             \<comment> \<open>created by \<^verbatim>\<open>asyncio.create_task\<close>, not yet run\<close>
  | AwaitRecv             \<comment> \<open>\<^verbatim>\<open>wait_for(websocket.recv(), 1.0)\<close>\<close>
  | Cancelled             \<comment> \<open>at the same await, after \<^verbatim>\<open>receive_task.cancel()\<close>\<close>
  | Finished

text \<open>
  Besides the bot, a session state carries three counters that the program does not
  have: the connect attempts made, the calls of \<^verbatim>\<open>spawn_bot\<close> that reached their
  send, and the Spawn frames whose send returned.
\<close>

record session =
  bot :: BenchmarkBot
  pc :: main_pc
  rpc :: recv_pc
  connect_attempts :: nat
  spawn_attempts :: nat
  spawn_frames_sent :: nat

definition init_session :: "nat \<Rightarrow> session" where
  "init_session i = \<lparr>bot = new_bot i, pc = NotStarted, rpc = NotCreated,
                     connect_attempts = 0, spawn_attempts = 0, spawn_frames_sent = 0\<rparr>"

text \<open>
  What the world does to a session: it resumes one of the two tasks with the outcome of
  the \<^verbatim>\<open>await\<close> the task is suspended at, or the driver clears \<^verbatim>\<open>running\<close>
  (\<^verbatim>\<open>run_benchmark\<close>, \<^verbatim>\<open>bot.running = False\<close>). A sleep that ends carries
  the two clock readings the code takes next: the latency it computes and whether
  \<^verbatim>\<open>time.time() < end_time\<close> holds at the next loop test.
\<close>

datatype event =
    Start
  | ConnectOk
  | ConnectFailed                 \<comment> \<open>timeout, refusal or any other exception\<close>
  | SendOk
  | SendFailed
  | Received "byte list"
  | RecvTimeout
  | RecvFailed
  | Slept real bool
  | CloseDone                     \<comment> \<open>close returned or raised: both are swallowed\<close>
  | RecvTaskStart
  | RecvTaskReceived "byte list"
  | RecvTaskTimeout
  | RecvTaskFailed
  | DriverStop

definition upd_bot :: "(BenchmarkBot \<Rightarrow> BenchmarkBot) \<Rightarrow> session \<Rightarrow> session" where
  "upd_bot f s = s\<lparr>bot := f (bot s)\<rparr>"

definition count_sent :: "BenchmarkBot \<Rightarrow> BenchmarkBot" where
  "count_sent b = b\<lparr>packets_sent := packets_sent b + 1\<rparr>"

definition count_received :: "BenchmarkBot \<Rightarrow> BenchmarkBot" where
  "count_received b = b\<lparr>packets_received := packets_received b + 1\<rparr>"

text \<open>
  \<^verbatim>\<open>disconnect\<close>, up to its await: \<^verbatim>\<open>running = False\<close>, then the close of the
  handle if there is one.
\<close>

definition disconnect :: "session \<Rightarrow> session" where
  "disconnect s =
     (let s' = upd_bot (\<lambda>b. b\<lparr>running := False\<rparr>) s
      in if websocket (bot s') then s'\<lparr>pc := AwaitClose\<rparr> else s'\<lparr>pc := Returned\<rparr>)"

text \<open>
  \<^verbatim>\<open>receive_task.cancel()\<close>: a task that has not run yet never runs. A task that
  waits for a frame gets \<^verbatim>\<open>CancelledError\<close> when it is next resumed, and its bare
  \<^verbatim>\<open>except\<close> breaks the loop (the event \<open>RecvTaskFailed\<close>). Interpreters
  before Python 3.12 may instead hand over a frame that had arrived just before the
  cancellation; the task then handles this frame and tests \<^verbatim>\<open>self.running\<close>,
  which \<^verbatim>\<open>disconnect\<close> has cleared by then.
\<close>

definition cancel_receive_task :: "session \<Rightarrow> session" where
  "cancel_receive_task s =
     (case rpc s of
        Scheduled \<Rightarrow> s\<lparr>rpc := Finished\<rparr>
      | AwaitRecv \<Rightarrow> s\<lparr>rpc := Cancelled\<rparr>
      | _ \<Rightarrow> s)"

text \<open>
  The test of the main loop, \<^verbatim>\<open>time.time() < end_time and self.running\<close>, and what
  follows it up to the next await: the send of an Input frame, or the cancellation of the
  receive task and \<^verbatim>\<open>disconnect\<close> in the \<^verbatim>\<open>finally\<close> clause.
\<close>

definition loop_test :: "bool \<Rightarrow> session \<Rightarrow> session" where
  "loop_test in_window s =
     (if in_window \<and> running (bot s) then s\<lparr>pc := AwaitInput\<rparr>
      else disconnect (cancel_receive_task s))"

text \<open>The call of \<^verbatim>\<open>spawn_bot\<close> up to its send.\<close>

definition call_spawn_bot :: "main_pc \<Rightarrow> session \<Rightarrow> session" where
  "call_spawn_bot nxt s = s\<lparr>pc := nxt, spawn_attempts := spawn_attempts s + 1\<rparr>"

text \<open>The rest of \<^verbatim>\<open>spawn_bot\<close> when its send has returned.\<close>

definition spawn_sent :: "session \<Rightarrow> session" where
  "spawn_sent s = (upd_bot count_sent s)\<lparr>spawn_frames_sent := spawn_frames_sent s + 1\<rparr>"

text \<open>The next iteration of the poll for the accept frame, or the settle sleep after it.\<close>

definition next_poll :: "nat \<Rightarrow> session \<Rightarrow> session" where
  "next_poll k s = (case k of 0 \<Rightarrow> s\<lparr>pc := AwaitSettle\<rparr> | Suc j \<Rightarrow> s\<lparr>pc := AwaitAccept j\<rparr>)"

definition first_byte_is :: "byte list \<Rightarrow> byte \<Rightarrow> bool" where
  "first_byte_is msg t = (case msg of [] \<Rightarrow> False | x # _ \<Rightarrow> x = t)"

text \<open>The test of \<^verbatim>\<open>while self.running\<close> in \<^verbatim>\<open>receive_loop\<close>.\<close>

definition recv_loop_test :: "session \<Rightarrow> session" where
  "recv_loop_test s = (if running (bot s) then s\<lparr>rpc := AwaitRecv\<rparr> else s\<lparr>rpc := Finished\<rparr>)"

text \<open>
  The body of \<^verbatim>\<open>receive_loop\<close> for one frame: count it, and set \<^verbatim>\<open>spawned\<close>
  when its first byte is 0 or 2.
\<close>

definition on_frame :: "byte list \<Rightarrow> BenchmarkBot \<Rightarrow> BenchmarkBot" where
  "on_frame msg b =
     (let b' = count_received b
      in if first_byte_is msg 0 \<or> first_byte_is msg 2
         then (if \<not> spawned b' then b'\<lparr>spawned := True\<rparr> else b')
         else b')"

text \<open>
  One step: the task resumed by the event runs to its next await. \<open>None\<close>: the event
  cannot happen in this state. Between two steps both tasks are suspended, so the
  receive task may be resumed wherever the main task waits, also while a send of the
  main task is pending; asyncio allows no other interleaving. The frames that arrive and
  the failures of the connection are not constrained.
\<close>

fun step :: "event \<Rightarrow> session \<Rightarrow> session option" where
  "step DriverStop s = Some (upd_bot (\<lambda>b. b\<lparr>running := False\<rparr>) s)"
| "step RecvTaskStart s =
     (if rpc s = Scheduled then Some (recv_loop_test s) else None)"
| "step (RecvTaskReceived msg) s =
     (if rpc s = AwaitRecv \<or> rpc s = Cancelled
      then Some (recv_loop_test (upd_bot (on_frame msg) s)) else None)"
| "step RecvTaskTimeout s =
     (if rpc s = AwaitRecv then Some (recv_loop_test s) else None)"
| "step RecvTaskFailed s =
     (if rpc s = AwaitRecv \<or> rpc s = Cancelled then Some (s\<lparr>rpc := Finished\<rparr>) else None)"
| "step Start s =
     (if pc s = NotStarted
      then Some (s\<lparr>pc := AwaitConnect, connect_attempts := connect_attempts s + 1\<rparr>)
      else None)"
| "step ConnectOk s =
     (if pc s = AwaitConnect
      then Some ((upd_bot (\<lambda>b. b\<lparr>websocket := True, connected := True\<rparr>) s)\<lparr>pc := AwaitInitSend\<rparr>)
      else None)"
| "step ConnectFailed s =
     (if pc s = AwaitConnect then Some (s\<lparr>pc := Returned\<rparr>) else None)"
| "step SendOk s =
     (case pc s of
        AwaitInitSend \<Rightarrow> Some ((upd_bot count_sent s)\<lparr>pc := AwaitAccept 9\<rparr>)
      | AwaitSpawn1 \<Rightarrow> Some ((spawn_sent s)\<lparr>pc := AwaitSleep1\<rparr>)
      | AwaitSpawn2 \<Rightarrow> Some ((spawn_sent s)\<lparr>pc := AwaitSleep2\<rparr>)
      | AwaitInput \<Rightarrow> Some ((upd_bot count_sent s)\<lparr>pc := AwaitTick\<rparr>)
      | _ \<Rightarrow> None)"
| "step SendFailed s =
     (case pc s of
        AwaitInitSend \<Rightarrow> Some (disconnect s)
      | AwaitSpawn1 \<Rightarrow> Some (s\<lparr>pc := AwaitSleep1\<rparr>)
      | AwaitSpawn2 \<Rightarrow> Some (s\<lparr>pc := AwaitSleep2\<rparr>)
      | AwaitInput \<Rightarrow> Some (disconnect (cancel_receive_task s))
      | _ \<Rightarrow> None)"
| "step (Received msg) s =
     (case pc s of
        AwaitAccept k \<Rightarrow>
          (let s' = upd_bot count_received s
           in if first_byte_is msg 7 then Some (s'\<lparr>pc := AwaitSettle\<rparr>)
              else Some (next_poll k s'))
      | _ \<Rightarrow> None)"
| "step RecvTimeout s =
     (case pc s of AwaitAccept k \<Rightarrow> Some (next_poll k s) | _ \<Rightarrow> None)"
| "step RecvFailed s =
     (case pc s of AwaitAccept k \<Rightarrow> Some (disconnect s) | _ \<Rightarrow> None)"
| "step (Slept latency in_window) s =
     (case pc s of
        AwaitSettle \<Rightarrow> Some (call_spawn_bot AwaitSpawn1 (s\<lparr>rpc := Scheduled\<rparr>))
      | AwaitSleep1 \<Rightarrow> Some (call_spawn_bot AwaitSpawn2 s)
      | AwaitSleep2 \<Rightarrow> Some (loop_test in_window s)
      | AwaitTick \<Rightarrow>
          Some (loop_test in_window (upd_bot (\<lambda>b. b\<lparr>latencies := latencies b @ [latency]\<rparr>) s))
      | _ \<Rightarrow> None)"
| "step CloseDone s =
     (if pc s = AwaitClose then Some (s\<lparr>pc := Returned\<rparr>) else None)"

text \<open>A run: the events in the order in which they happen.\<close>

fun exec :: "event list \<Rightarrow> session \<Rightarrow> session option" where
  "exec [] s = Some s"
| "exec (e # es) s = (case step e s of None \<Rightarrow> None | Some s' \<Rightarrow> exec es s')"

subsection \<open>Invariants of a session\<close>

text \<open>Where the main task is: before the connect has answered, in the handshake, past it.\<close>

fun before_connect :: "main_pc \<Rightarrow> bool" where
  "before_connect NotStarted = True"
| "before_connect AwaitConnect = True"
| "before_connect _ = False"

fun handshaking :: "main_pc \<Rightarrow> bool" where
  "handshaking (AwaitAccept k) = True"
| "handshaking AwaitSettle = True"
| "handshaking _ = False"

fun spawning :: "main_pc \<Rightarrow> bool" where
  "spawning AwaitSpawn1 = True"
| "spawning AwaitSleep1 = True"
| "spawning AwaitSpawn2 = True"
| "spawning AwaitSleep2 = True"
| "spawning AwaitInput = True"
| "spawning AwaitTick = True"
| "spawning _ = False"

text \<open>A bot on which nothing has happened yet.\<close>

definition untouched :: "BenchmarkBot \<Rightarrow> bool" where
  "untouched b \<longleftrightarrow> \<not> websocket b \<and> \<not> connected b \<and> \<not> spawned b \<and> latencies b = []
     \<and> packets_sent b = 0 \<and> packets_received b = 0"

text \<open>What holds in every state that a session reaches.\<close>

definition session_inv :: "session \<Rightarrow> bool" where
  "session_inv s \<longleftrightarrow>
     (before_connect (pc s) \<longrightarrow> untouched (bot s) \<and> rpc s = NotCreated)
   \<and> connect_attempts s = (if pc s = NotStarted then 0 else 1)
   \<and> (pc s = AwaitInitSend \<or> handshaking (pc s) \<longrightarrow> connected (bot s) \<and> websocket (bot s))
   \<and> (handshaking (pc s) \<longrightarrow> 0 < packets_sent (bot s))
   \<and> (rpc s \<noteq> NotCreated \<longrightarrow>
        connected (bot s) \<and> 0 < spawn_attempts s \<and> 0 < packets_sent (bot s))
   \<and> (spawning (pc s) \<longrightarrow> rpc s \<noteq> NotCreated)
   \<and> (spawned (bot s) \<longrightarrow> rpc s \<noteq> NotCreated)"

text \<open>What holds from a failed connect on.\<close>

definition failed_inv :: "session \<Rightarrow> bool" where
  "failed_inv s \<longleftrightarrow> pc s = Returned \<and> rpc s = NotCreated \<and> untouched (bot s)
     \<and> connect_attempts s = 1"

subsection \<open>The percentile indices in double precision\<close>

text \<open>
  \<^verbatim>\<open>int(len(all_latencies) * 0.95)\<close> converts the length to a double, multiplies two
  doubles and truncates. Both the conversion and the product round to the nearest double,
  ties to even. A double has a significand of 53 bits, so a non-negative number
  \<open>p * 2 ^ e\<close> with \<open>p\<close> a natural number rounds to \<open>round_to_double p * 2 ^ e\<close>.
  A length is below \<open>2 ^ 63\<close>, far from the ends of the exponent range, which the model
  leaves out.
\<close>

fun bit_length :: "nat \<Rightarrow> nat" where
  "bit_length n = (if n = 0 then 0 else Suc (bit_length (n div 2)))"

declare bit_length.simps [simp del]

definition round_to_double :: "nat \<Rightarrow> nat" where
  "round_to_double p =
     (let s = bit_length p - 53; q = p div 2 ^ s; r = p mod 2 ^ s
      in if 2 ^ s < 2 * r \<or> (2 * r = 2 ^ s \<and> odd q) then (q + 1) * 2 ^ s else q * 2 ^ s)"

text \<open>
  The doubles that the literals \<^verbatim>\<open>0.95\<close>, \<^verbatim>\<open>0.99\<close> and \<^verbatim>\<open>0.995\<close> denote,
  as multiples of \<open>2 ^ - 53\<close>: each lies just below the decimal fraction.
\<close>

definition double_0_95 :: nat where
  "double_0_95 = 8556839292003942"

definition double_0_99 :: nat where
  "double_0_99 = 8917127262193582"

definition double_0_995 :: nat where
  "double_0_995 = 8962163258467287"

text \<open>\<^verbatim>\<open>int(n * c)\<close> for a length \<open>n\<close> and the double \<open>c * 2 ^ - 53\<close>.\<close>

definition int_of_product :: "nat \<Rightarrow> nat \<Rightarrow> nat" where
  "int_of_product n c = round_to_double (round_to_double n * c) div 2 ^ 53"

subsection \<open>The statistics of a load level\<close>

text \<open>\<^verbatim>\<open>xs[i]\<close> for an index that is not negative.\<close>

definition getitem :: "'a list \<Rightarrow> nat \<Rightarrow> py_error + 'a" where
  "getitem xs i = (if i < length xs then Inr (xs ! i) else Inl IndexError)"

fun py_min :: "real list \<Rightarrow> py_error + real" where
  "py_min [] = Inl ValueError"
| "py_min (x # xs) = Inr (fold min xs x)"

fun py_max :: "real list \<Rightarrow> py_error + real" where
  "py_max [] = Inl ValueError"
| "py_max (x # xs) = Inr (fold max xs x)"

text \<open>\<^verbatim>\<open>a / b\<close> on numbers. The rounding of the quotient is not modelled.\<close>

definition true_div :: "real \<Rightarrow> real \<Rightarrow> py_error + real" where
  "true_div a b = (if b = 0 then Inl ZeroDivisionError else Inr (a / b))"

record latency_summary =
  avg_latency :: real
  median_latency :: real
  p95_latency :: real
  p99_latency :: real
  p99_5_latency :: real
  min_latency :: real
  max_latency :: real

text \<open>
  The \<^verbatim>\<open>if all_latencies: ... else: ...\<close> block of \<^verbatim>\<open>run_benchmark\<close>: the list is
  sorted in place, then read at the four indices.
\<close>

definition latency_stats :: "real list \<Rightarrow> py_error + latency_summary" where
  "latency_stats all_latencies =
     (if all_latencies \<noteq> [] then
        (let sorted_latencies = sort all_latencies; n = length sorted_latencies
         in and_then (true_div (sum_list sorted_latencies) (real n)) (\<lambda>avg.
            and_then (getitem sorted_latencies (n div 2)) (\<lambda>median.
            and_then (getitem sorted_latencies (int_of_product n double_0_95)) (\<lambda>p95.
            and_then (getitem sorted_latencies (int_of_product n double_0_99)) (\<lambda>p99.
            and_then (getitem sorted_latencies (int_of_product n double_0_995)) (\<lambda>p99_5.
            and_then (py_min sorted_latencies) (\<lambda>least.
            and_then (py_max sorted_latencies) (\<lambda>greatest.
              Inr \<lparr>avg_latency = avg, median_latency = median, p95_latency = p95,
                   p99_latency = p99, p99_5_latency = p99_5,
                   min_latency = least, max_latency = greatest\<rparr>))))))))
      else Inr \<lparr>avg_latency = 0, median_latency = 0, p95_latency = 0, p99_latency = 0,
                p99_5_latency = 0, min_latency = 0, max_latency = 0\<rparr>)"

text \<open>\<^verbatim>\<open>bots = [BenchmarkBot(i, url) for i in range(num_users)]\<close>\<close>

definition create_bots :: "int \<Rightarrow> BenchmarkBot list" where
  "create_bots num_users = map new_bot [0 ..< nat num_users]"

text \<open>
  The loop \<^verbatim>\<open>for bot in bots\<close> that fills \<^verbatim>\<open>all_latencies\<close>,
  \<^verbatim>\<open>total_packets_sent\<close> and \<^verbatim>\<open>total_packets_received\<close>.
\<close>

fun collect :: "BenchmarkBot list \<Rightarrow> real list \<times> nat \<times> nat \<Rightarrow> real list \<times> nat \<times> nat" where
  "collect [] acc = acc"
| "collect (b # bs) (all_latencies, total_sent, total_received) =
     collect bs (all_latencies @ latencies b, total_sent + packets_sent b,
                 total_received + packets_received b)"

text \<open>
  The dictionary that \<^verbatim>\<open>run_benchmark\<close> returns. The keys \<^verbatim>\<open>connected\<close>,
  \<^verbatim>\<open>spawned\<close>, \<^verbatim>\<open>packets_sent\<close> and \<^verbatim>\<open>packets_received\<close> are named here
  after the local variables that fill them, since the bot has fields of the same names.
\<close>

record level_result =
  users :: int
  duration :: real
  connected_count :: nat
  spawned_count :: nat
  total_packets_sent :: nat
  total_packets_received :: nat
  latency :: latency_summary
  success_rate :: real

text \<open>
  \<^verbatim>\<open>run_benchmark\<close> from the count of the connected bots on. The bots are read
  twice: \<open>bots_settled\<close> is the list as it is five seconds after the launch, when
  \<^verbatim>\<open>connected\<close> and \<^verbatim>\<open>spawned\<close> are counted, \<open>bots_stopped\<close> the same list
  after the window, when the samples and counters are collected. The summary that is
  printed divides by \<^verbatim>\<open>num_users\<close> before the dictionary is built.
\<close>

definition run_benchmark_report ::
  "int \<Rightarrow> real \<Rightarrow> BenchmarkBot list \<Rightarrow> BenchmarkBot list \<Rightarrow> py_error + level_result" where
  "run_benchmark_report num_users total_duration bots_settled bots_stopped =
     (let connected_n = length (filter connected bots_settled);
          spawned_n = length (filter spawned bots_settled)
      in case collect bots_stopped ([], 0, 0) of
           (all_latencies, total_sent, total_received) \<Rightarrow>
             and_then (latency_stats all_latencies) (\<lambda>stats.
             and_then (true_div (real connected_n) (real_of_int num_users)) (\<lambda>printed_rate.
             and_then (true_div (real spawned_n) (real_of_int num_users)) (\<lambda>printed_spawn_rate.
             and_then (true_div (real connected_n) (real_of_int num_users)) (\<lambda>rate.
               Inr \<lparr>users = num_users, duration = total_duration,
                    connected_count = connected_n, spawned_count = spawned_n,
                    total_packets_sent = total_sent, total_packets_received = total_received,
                    latency = stats, success_rate = rate * 100\<rparr>)))))"

subsection \<open>The orchestrator\<close>

text \<open>
  How the connect of \<^verbatim>\<open>check_server_connection\<close> ends. An interrupt by the
  operator is none of the exceptions that the function catches.
\<close>

datatype probe_outcome =
    ProbeOk
  | ProbeTimeout
  | ProbeRefused
  | ProbeOtherError
  | ProbeInterrupted

text \<open>What the program prints, by kind of message.\<close>

datatype notice =
    ServerReachable
  | ConnectTimedOut
  | ConnectRefused
  | ConnectError
  | HowToStartServer
  | BenchmarkAborted
  | ResultsSaved

definition check_server_connection :: "probe_outcome \<Rightarrow> py_error + bool \<times> notice list" where
  "check_server_connection probe =
     (case probe of
        ProbeOk \<Rightarrow> Inr (True, [ServerReachable])
      | ProbeTimeout \<Rightarrow> Inr (False, [ConnectTimedOut, HowToStartServer])
      | ProbeRefused \<Rightarrow> Inr (False, [ConnectRefused, HowToStartServer])
      | ProbeOtherError \<Rightarrow> Inr (False, [ConnectError])
      | ProbeInterrupted \<Rightarrow> Inl KeyboardInterrupt)"

text \<open>
  The prompt \<^verbatim>\<open>input(...)\<close> between the probe and the sweep: the operator presses
  Enter, or the standard input is at its end (\<^verbatim>\<open>EOFError\<close>, which nothing in the
  program catches), or the operator interrupts.
\<close>

datatype prompt_outcome = EnterPressed | EndOfInput | PromptInterrupted

definition wait_for_enter :: "prompt_outcome \<Rightarrow> py_error + unit" where
  "wait_for_enter operator =
     (case operator of
        EnterPressed \<Rightarrow> Inr ()
      | EndOfInput \<Rightarrow> Inl EOFError
      | PromptInterrupted \<Rightarrow> Inl KeyboardInterrupt)"

text \<open>\<^verbatim>\<open>test_cases = [1] + list(range(100, 1001, 100))\<close>\<close>

definition test_cases :: "int list" where
  "test_cases = [1] @ map (\<lambda>k. 100 + 100 * int k) [0 ..< 10]"

text \<open>
  What happens during the levels is the argument \<open>world\<close>: for each user count either
  the measured duration and the two readings of the bots, or an interrupt by the operator
  before \<^verbatim>\<open>run_benchmark\<close> returns. The loop of \<^verbatim>\<open>main\<close> appends one result
  per level; a raise inside \<^verbatim>\<open>run_benchmark\<close> leaves \<^verbatim>\<open>main\<close>.
\<close>

datatype level_run =
    LevelRan real "BenchmarkBot list" "BenchmarkBot list"
  | LevelInterrupted

type_synonym world = "int \<Rightarrow> level_run"

fun run_levels :: "world \<Rightarrow> int list \<Rightarrow> level_result list \<Rightarrow> py_error + level_result list" where
  "run_levels world [] results = Inr results"
| "run_levels world (num_users # rest) results =
     (case world num_users of
        LevelInterrupted \<Rightarrow> Inl KeyboardInterrupt
      | LevelRan total_duration bots_settled bots_stopped \<Rightarrow>
          and_then (run_benchmark_report num_users total_duration bots_settled bots_stopped)
            (\<lambda>result. run_levels world rest (results @ [result])))"

record run_outcome =
  printed :: "notice list"
  rows :: "level_result list"

text \<open>
  \<^verbatim>\<open>main\<close>: the probe, the prompt, the sweep, then the export of the rows. The
  script runs \<^verbatim>\<open>main\<close> under \<^verbatim>\<open>except KeyboardInterrupt\<close>, so an interrupt
  ends the run there; \<^verbatim>\<open>EOFError\<close> ends it with a traceback. The rows are written
  only after the sweep: a raise leaves none. The writing of the CSV file and of the
  charts is outside the model.
\<close>

definition main :: "probe_outcome \<Rightarrow> prompt_outcome \<Rightarrow> world \<Rightarrow> py_error + run_outcome" where
  "main probe operator world =
     and_then (check_server_connection probe) (\<lambda>(reachable, notes).
       if \<not> reachable then Inr \<lparr>printed = notes @ [BenchmarkAborted], rows = []\<rparr>
       else
         and_then (wait_for_enter operator) (\<lambda>_.
         and_then (run_levels world test_cases []) (\<lambda>results.
           Inr \<lparr>printed = notes @ [ResultsSaved], rows = results\<rparr>)))"

section \<open>Properties\<close>

subsection \<open>The Input frame\<close>

lemma choose_flags_cases: "choose_flags pick \<in> {0, 1, 2, 4, 8, 16}"
proof (cases pick)
  case None
  then show ?thesis by (simp add: choose_flags_def)
next
  case (Some f)
  then show ?thesis by (cases f) (simp_all add: choose_flags_def)
qed

text \<open>
  C1, against the claim: the frame that the code builds for the flag \<open>Up\<close> and the
  axes 1.0, 0, 0, 0 is not the frame with a one-byte flags field, since
  \<^verbatim>\<open>struct.pack\<close> is called with the code \<^verbatim>\<open>i\<close> for the flags.
\<close>

theorem input_packet_flags_not_one_byte:
  "input_packet (choose_flags (Some Up)) 0x3F800000 0 0 0
     \<noteq> Inr (spec_Input_frame 2 0x3F800000 0 0 0)"
  by (simp add: input_packet_def struct_pack_Biffff_def and_then_def pack_B_def pack_i_def
      pack_f_def le_bytes32_def spec_Input_frame_def choose_flags_def)

text \<open>
  C1, as amended: every Input frame that the client encodes is the tag byte 1, then the
  flags as a four-byte little-endian integer (the flags value in the first byte, three
  zero bytes after it), then the four axes as four-byte fields in the order axis1x,
  axis1y, axis2x, axis2y: 21 bytes, and the encoding never fails.
\<close>

theorem input_packet_layout:
  "\<exists>frame. input_packet (choose_flags pick) a b c d = Inr frame
     \<and> frame = [1] @ [word_of_int (choose_flags pick), 0, 0, 0]
                @ pack_f a @ pack_f b @ pack_f c @ pack_f d
     \<and> length (pack_f a) = 4 \<and> length (pack_f b) = 4
     \<and> length (pack_f c) = 4 \<and> length (pack_f d) = 4
     \<and> length frame = 21"
proof -
  have "choose_flags pick \<in> {0, 1, 2, 4, 8, 16}"
    by (rule choose_flags_cases)
  then show ?thesis
    by (auto simp: input_packet_def struct_pack_Biffff_def and_then_def pack_B_def pack_i_def
        pack_f_def le_bytes32_def)
qed

subsection \<open>Rounding to a double\<close>

lemma bit_length_0 [simp]: "bit_length 0 = 0"
  by (simp add: bit_length.simps)

lemma bit_length_pos: "0 < n \<Longrightarrow> bit_length n = Suc (bit_length (n div 2))"
  by (subst bit_length.simps) simp

lemma bit_length_upper: "n < 2 ^ bit_length n"
proof (induction n rule: bit_length.induct)
  case (1 n)
  show ?case
  proof (cases "n = 0")
    case True
    then show ?thesis by simp
  next
    case False
    with 1 have "n div 2 < 2 ^ bit_length (n div 2)" by simp
    then have "n < 2 * 2 ^ bit_length (n div 2)" by linarith
    with False show ?thesis by (simp add: bit_length_pos)
  qed
qed

lemma bit_length_lower: "0 < n \<Longrightarrow> 2 ^ (bit_length n - 1) \<le> n"
proof (induction n rule: bit_length.induct)
  case (1 n)
  show ?case
  proof (cases "n div 2 = 0")
    case True
    with 1 have "n = 1" by linarith
    then show ?thesis by (simp add: bit_length_pos)
  next
    case False
    with 1 have ih: "2 ^ (bit_length (n div 2) - 1) \<le> n div 2" by simp
    from False have "0 < bit_length (n div 2)" by (simp add: bit_length_pos)
    then have "(2::nat) ^ bit_length (n div 2) = 2 * 2 ^ (bit_length (n div 2) - 1)"
      by (cases "bit_length (n div 2)") simp_all
    with ih have "2 ^ bit_length (n div 2) \<le> n" by linarith
    with 1 show ?thesis by (simp add: bit_length_pos)
  qed
qed

lemma bit_length_le: "n < 2 ^ k \<Longrightarrow> bit_length n \<le> k"
proof (rule ccontr)
  assume lt: "n < 2 ^ k" and "\<not> bit_length n \<le> k"
  then have k: "k \<le> bit_length n - 1" and pos: "0 < n"
    by (auto intro: Nat.gr0I)
  from pos have "2 ^ (bit_length n - 1) \<le> n" by (rule bit_length_lower)
  moreover from k have "(2::nat) ^ k \<le> 2 ^ (bit_length n - 1)" by (rule power_increasing) simp
  ultimately show False using lt by linarith
qed

text \<open>The rounding error is at most one unit in the last place.\<close>

lemma round_to_double_exact: "p < 2 ^ 53 \<Longrightarrow> round_to_double p = p"
proof -
  assume "p < 2 ^ 53"
  then have "bit_length p \<le> 53" by (rule bit_length_le)
  then show ?thesis by (simp add: round_to_double_def)
qed

lemma round_to_double_near:
  fixes p :: nat
  defines "s \<equiv> bit_length p - 53"
  shows "round_to_double p \<le> p + 2 ^ s" and "p \<le> round_to_double p + 2 ^ s"
    and "0 < s \<Longrightarrow> 2 ^ 52 * 2 ^ s \<le> p" and "s = 0 \<Longrightarrow> round_to_double p = p"
proof -
  define u :: nat where "u = 2 ^ s"
  define q where "q = p div u"
  define r where "r = p mod u"
  have split: "p = q * u + r"
    unfolding q_def r_def by (rule div_mult_mod_eq [symmetric])
  have "0 < u" by (simp add: u_def)
  then have r: "r < u" by (simp add: r_def)
  have "round_to_double p = q * u \<or> round_to_double p = (q + 1) * u"
    by (simp add: round_to_double_def s_def Let_def u_def q_def)
  then have rd: "round_to_double p = q * u \<or> round_to_double p = q * u + u"
    by auto
  from rd split r show "round_to_double p \<le> p + 2 ^ s"
    unfolding u_def [symmetric] by linarith
  from rd split r show "p \<le> round_to_double p + 2 ^ s"
    unfolding u_def [symmetric] by linarith
  show "2 ^ 52 * 2 ^ s \<le> p" if "0 < s"
  proof -
    from that have b: "bit_length p - 1 = 52 + s" and "0 < p"
      by (auto simp: s_def intro: Nat.gr0I)
    then have "2 ^ (52 + s) \<le> p" using bit_length_lower [of p] by simp
    then show ?thesis by (simp add: power_add)
  qed
  show "round_to_double p = p" if "s = 0"
    using that by (simp add: round_to_double_def s_def)
qed

lemma round_to_double_upper: "2 ^ 52 * round_to_double p \<le> (2 ^ 52 + 1) * p"
proof (cases "bit_length p - 53 = 0")
  case True
  then show ?thesis using round_to_double_near(4) [of p] by simp
next
  case False
  then have "2 ^ 52 * 2 ^ (bit_length p - 53) \<le> p"
    using round_to_double_near(3) [of p] by simp
  moreover have "2 ^ 52 * round_to_double p \<le> 2 ^ 52 * (p + 2 ^ (bit_length p - 53))"
    using round_to_double_near(1) [of p] by (rule mult_le_mono2)
  ultimately show ?thesis by (simp add: algebra_simps)
qed

lemma round_to_double_lower: "(2 ^ 52 - 1) * p \<le> 2 ^ 52 * round_to_double p"
proof (cases "bit_length p - 53 = 0")
  case True
  then show ?thesis using round_to_double_near(4) [of p] by simp
next
  case False
  then have "2 ^ 52 * 2 ^ (bit_length p - 53) \<le> p"
    using round_to_double_near(3) [of p] by simp
  moreover have "2 ^ 52 * p \<le> 2 ^ 52 * (round_to_double p + 2 ^ (bit_length p - 53))"
    using round_to_double_near(2) [of p] by (rule mult_le_mono2)
  ultimately have "2 ^ 52 * p \<le> 2 ^ 52 * round_to_double p + p" by (simp add: algebra_simps)
  then show ?thesis by (simp add: algebra_simps)
qed

subsection \<open>Bounds on the percentile indices\<close>

lemma product_upper:
  "2 ^ 104 * round_to_double (round_to_double n * c) \<le> (2 ^ 52 + 1) ^ 2 * (n * c)"
proof -
  have "2 ^ 52 * (2 ^ 52 * round_to_double (round_to_double n * c))
          \<le> 2 ^ 52 * ((2 ^ 52 + 1) * (round_to_double n * c))"
    by (rule mult_le_mono2) (rule round_to_double_upper)
  also have "\<dots> = ((2 ^ 52 + 1) * c) * (2 ^ 52 * round_to_double n)"
    by (simp add: mult_ac)
  also have "\<dots> \<le> ((2 ^ 52 + 1) * c) * ((2 ^ 52 + 1) * n)"
    by (rule mult_le_mono2) (rule round_to_double_upper)
  finally show ?thesis
    by (simp add: power2_eq_square mult_ac)
qed

lemma product_lower:
  "(2 ^ 52 - 1) ^ 2 * (n * c) \<le> 2 ^ 104 * round_to_double (round_to_double n * c)"
proof -
  have "((2 ^ 52 - 1) * c) * ((2 ^ 52 - 1) * n) \<le> ((2 ^ 52 - 1) * c) * (2 ^ 52 * round_to_double n)"
    by (rule mult_le_mono2) (rule round_to_double_lower)
  also have "\<dots> = 2 ^ 52 * ((2 ^ 52 - 1) * (round_to_double n * c))"
    by (simp add: mult_ac)
  also have "\<dots> \<le> 2 ^ 52 * (2 ^ 52 * round_to_double (round_to_double n * c))"
    by (rule mult_le_mono2) (rule round_to_double_lower)
  finally show ?thesis
    by (simp add: power2_eq_square mult_ac)
qed

lemma int_of_product_less:
  assumes c: "(2 ^ 52 + 1) ^ 2 * c < 2 ^ 157" and n: "0 < n"
  shows "int_of_product n c < n"
proof -
  have "2 ^ 104 * round_to_double (round_to_double n * c) \<le> ((2 ^ 52 + 1) ^ 2 * c) * n"
    using product_upper [of n c] by (simp add: mult_ac)
  also have "\<dots> < 2 ^ 157 * n"
    using c n by simp
  finally have "2 ^ 104 * round_to_double (round_to_double n * c) < 2 ^ 104 * (2 ^ 53 * n)"
    by simp
  then have "round_to_double (round_to_double n * c) < n * 2 ^ 53"
    by (simp add: mult.commute)
  then show ?thesis
    unfolding int_of_product_def by (simp add: less_mult_imp_div_less)
qed

lemma int_of_product_half:
  assumes c: "2 ^ 156 \<le> (2 ^ 52 - 1) ^ 2 * c"
  shows "n div 2 \<le> int_of_product n c"
proof -
  have "2 ^ 156 * n \<le> ((2 ^ 52 - 1) ^ 2 * c) * n"
    using c by (rule mult_le_mono1)
  also have "\<dots> \<le> 2 ^ 104 * round_to_double (round_to_double n * c)"
    using product_lower [of n c] by (simp add: mult_ac)
  finally have "2 ^ 104 * (2 ^ 52 * n) \<le> 2 ^ 104 * round_to_double (round_to_double n * c)"
    by simp
  then have "2 ^ 52 * n \<le> round_to_double (round_to_double n * c)"
    by simp
  then have "(2 ^ 52 * n) div 2 ^ 53 \<le> int_of_product n c"
    unfolding int_of_product_def by (rule div_le_mono)
  moreover have "(2 ^ 52 * n) div 2 ^ 53 = n div 2"
    by simp
  ultimately show ?thesis by simp
qed

lemma int_of_product_mono:
  assumes c: "(2 ^ 52 + 1) ^ 2 * c \<le> (2 ^ 52 - 1) ^ 2 * c'"
  shows "int_of_product n c \<le> int_of_product n c'"
proof -
  have "2 ^ 104 * round_to_double (round_to_double n * c) \<le> ((2 ^ 52 + 1) ^ 2 * c) * n"
    using product_upper [of n c] by (simp add: mult_ac)
  also have "\<dots> \<le> ((2 ^ 52 - 1) ^ 2 * c') * n"
    using c by (rule mult_le_mono1)
  also have "\<dots> \<le> 2 ^ 104 * round_to_double (round_to_double n * c')"
    using product_lower [of n c'] by (simp add: mult_ac)
  finally have "round_to_double (round_to_double n * c) \<le> round_to_double (round_to_double n * c')"
    by simp
  then show ?thesis
    unfolding int_of_product_def by (rule div_le_mono)
qed

lemma index_facts:
  "n div 2 \<le> int_of_product n double_0_95"
  "int_of_product n double_0_95 \<le> int_of_product n double_0_99"
  "int_of_product n double_0_99 \<le> int_of_product n double_0_995"
  "0 < n \<Longrightarrow> int_of_product n double_0_995 < n"
     apply (rule int_of_product_half, simp add: double_0_95_def)
    apply (rule int_of_product_mono, simp add: double_0_95_def double_0_99_def)
   apply (rule int_of_product_mono, simp add: double_0_99_def double_0_995_def)
  apply (rule int_of_product_less, simp add: double_0_995_def, assumption)
  done

subsection \<open>The indices are the floors of the exact products\<close>

lemma round_up_to_multiple:
  fixes P u M d :: nat
  assumes P: "P + d = M * u" and d: "0 < d" "2 * d < u"
    and u: "u = 2 ^ (bit_length P - 53)"
  shows "round_to_double P = M * u"
proof -
  from d have "0 < u" by simp
  with P d have "0 < M" by (cases M) auto
  then obtain M' where M: "M = Suc M'" by (cases M) auto
  with P have "P + d = M' * u + u" by simp
  with d have P': "P = M' * u + (u - d)" by linarith
  have r: "u - d < u" using d by linarith
  from P' r have q: "P div u = M'" by simp
  from P' r have m: "P mod u = u - d" by simp
  have "u < 2 * (u - d)" using d by linarith
  then show ?thesis
    unfolding round_to_double_def Let_def u [symmetric] q m M by simp
qed

lemma int_of_product_exact:
  fixes a b c e n :: nat
  assumes dbl: "b * c + e = a * 2 ^ 53" and ab: "a < b" and ea: "2 * e < a" and e: "0 < e"
    and small: "(e + b) * 2 ^ 40 \<le> 2 ^ 53" and n: "n < 2 ^ 40"
  shows "int_of_product n c = (a * n) div b"
proof -
  define P where "P = n * c"
  define Y where "Y = round_to_double P"
  define s where "s = bit_length P - 53"
  define u :: nat where "u = 2 ^ s"
  define k where "k = (a * n) div b"
  define t where "t = (a * n) mod b"
  have b: "0 < b" using ab by simp
  have "b * c < b * 2 ^ 53"
  proof -
    have "b * c \<le> a * 2 ^ 53" using dbl by linarith
    also have "\<dots> < b * 2 ^ 53" using ab by simp
    finally show ?thesis .
  qed
  then have c: "c < 2 ^ 53" by simp
  have "n < 2 ^ 53"
    using n by (rule less_trans) simp
  then have X: "round_to_double n = n" by (rule round_to_double_exact)
  have "n * c < 2 ^ 40 * 2 ^ 53"
    using n c by (rule mult_strict_mono) simp_all
  then have "P < 2 ^ 93" by (simp add: P_def)
  then have "bit_length P \<le> 93" by (rule bit_length_le)
  then have s: "s \<le> 40" by (simp add: s_def)
  then have u40: "u \<le> 2 ^ 40" unfolding u_def by (intro power_increasing) simp_all
  have upos: "0 < u" by (simp add: u_def)
  have near: "Y \<le> P + u" "P \<le> Y + u"
    unfolding Y_def u_def s_def by (rule round_to_double_near)+
  have ank: "a * n = k * b + t" and tb: "t < b"
    using b by (simp_all add: k_def t_def)
  have "b * P + e * n = n * (b * c + e)"
    by (simp add: P_def algebra_simps)
  also have "\<dots> = (a * n) * 2 ^ 53"
    by (simp add: dbl)
  finally have key: "b * P + e * n = k * b * 2 ^ 53 + t * 2 ^ 53"
    by (simp add: ank algebra_simps)
  have "e * n + b * u \<le> e * 2 ^ 40 + b * 2 ^ 40"
    using n u40 by (intro add_mono mult_le_mono2) simp_all
  with small have eb: "e * n + b * u \<le> 2 ^ 53" by (simp add: algebra_simps)
  have "b * u + e \<le> b * 2 ^ 40 + e * 2 ^ 40"
    using u40 by (intro add_mono mult_le_mono2) simp_all
  with small e have bu: "b * u < 2 ^ 53" by (simp add: algebra_simps)
  have bY: "b * Y \<le> b * P + b * u" "b * P \<le> b * Y + b * u"
    using near by (simp_all flip: distrib_left)
  have "Suc t * 2 ^ 53 \<le> b * 2 ^ 53"
    using tb by (intro mult_le_mono1) simp
  then have tB: "t * 2 ^ 53 + 2 ^ 53 \<le> b * 2 ^ 53" by simp
  have "b * Y < k * b * 2 ^ 53 + b * 2 ^ 53"
    using bY(1) key tB bu by linarith
  then have "b * Y < b * (2 ^ 53 * Suc k)" by (simp add: algebra_simps)
  then have upper: "Y < 2 ^ 53 * Suc k" by simp
  have lower: "2 ^ 53 * k \<le> Y"
  proof (cases "t = 0")
    case False
    then have "1 * 2 ^ 53 \<le> t * 2 ^ 53" by (intro mult_le_mono1) simp
    then have "k * b * 2 ^ 53 \<le> b * Y"
      using bY(2) key eb by linarith
    then have "b * (2 ^ 53 * k) \<le> b * Y" by (simp add: algebra_simps)
    with b show ?thesis by simp
  next
    case True
    show ?thesis
    proof (cases "n = 0")
      case True
      then show ?thesis by (simp add: k_def)
    next
      case False
      with True ank ea have kpos: "0 < k" by (cases k) auto
      from True key have key0: "b * P + e * n = b * (k * 2 ^ 53)"
        by (simp add: algebra_simps)
      then have "b * P \<le> b * (k * 2 ^ 53)" by linarith
      then have "P \<le> k * 2 ^ 53" using b by simp
      then obtain d where d: "P + d = k * 2 ^ 53"
        by (metis le_Suc_ex)
      with key0 have bd: "b * d = e * n"
        by (metis add_left_cancel distrib_left)
      from False e b have dpos: "0 < d"
        using bd by (cases d) auto
      have "a * (b * d) = e * (k * b)"
        using bd ank True by (simp add: algebra_simps)
      then have "b * (a * d) = b * (e * k)" by (simp add: algebra_simps)
      then have ad: "a * d = e * k" using b by simp
      have "a * (2 * d) = (2 * e) * k" using ad by (simp add: algebra_simps)
      also have "\<dots> < a * k" using ea kpos by simp
      finally have dk: "2 * d < k" by simp
      have ku: "k \<le> u"
      proof (rule ccontr)
        assume "\<not> k \<le> u"
        then have "Suc u \<le> k" by simp
        then have "Suc u * 2 ^ 53 \<le> k * 2 ^ 53" by (rule mult_le_mono1)
        moreover have "P < 2 ^ bit_length P" by (rule bit_length_upper)
        moreover have "(2::nat) ^ bit_length P \<le> 2 ^ (s + 53)"
          by (rule power_increasing) (simp_all add: s_def)
        ultimately have "2 ^ 53 < d" using d by (simp add: u_def power_add)
        then have "b * 2 ^ 53 < b * d" using b by simp
        moreover have "e * n \<le> 2 ^ 53" using eb by linarith
        moreover have "1 * 2 ^ 53 \<le> b * 2 ^ 53" using b by (intro mult_le_mono1) simp
        ultimately show False using bd by linarith
      qed
      have "(2::nat) ^ 53 = 2 ^ (53 - s) * 2 ^ s"
        using s by (simp flip: power_add)
      then have "P + d = (k * 2 ^ (53 - s)) * u"
        using d by (simp add: u_def)
      moreover have "2 * d < u" using dk ku by linarith
      ultimately have "round_to_double P = (k * 2 ^ (53 - s)) * u"
        using dpos round_up_to_multiple [of P d "k * 2 ^ (53 - s)" u] by (simp add: u_def s_def)
      also have "\<dots> = k * 2 ^ 53"
        using s by (simp add: u_def flip: power_add)
      finally show ?thesis by (simp add: Y_def)
    qed
  qed
  from lower upper have "Y div 2 ^ 53 = k" by (rule div_nat_eqI)
  then show ?thesis
    by (simp add: int_of_product_def X Y_def P_def k_def)
qed

lemma int_of_product_0_95: "n < 2 ^ 40 \<Longrightarrow> int_of_product n double_0_95 = (95 * n) div 100"
  by (rule int_of_product_exact [where e = 40]) (simp_all add: double_0_95_def)

lemma int_of_product_0_99: "n < 2 ^ 40 \<Longrightarrow> int_of_product n double_0_99 = (99 * n) div 100"
  by (rule int_of_product_exact [where e = 8]) (simp_all add: double_0_99_def)

lemma int_of_product_0_995: "n < 2 ^ 40 \<Longrightarrow> int_of_product n double_0_995 = (199 * n) div 200"
  by (rule int_of_product_exact [where e = 8]) (simp_all add: double_0_995_def)

subsection \<open>The statistics block and the report\<close>

lemma py_min_sort: "l \<noteq> [] \<Longrightarrow> py_min (sort l) = Inr (Min (set l))"
proof -
  assume "l \<noteq> []"
  then have "sort l \<noteq> []" by (metis length_0_conv length_sort)
  then obtain x xs where xs: "sort l = x # xs" by (cases "sort l") auto
  have "set l = set (x # xs)" using xs by (metis set_sort)
  then show ?thesis unfolding xs by (simp only: py_min.simps Min.set_eq_fold)
qed

lemma py_max_sort: "l \<noteq> [] \<Longrightarrow> py_max (sort l) = Inr (Max (set l))"
proof -
  assume "l \<noteq> []"
  then have "sort l \<noteq> []" by (metis length_0_conv length_sort)
  then obtain x xs where xs: "sort l = x # xs" by (cases "sort l") auto
  have "set l = set (x # xs)" using xs by (metis set_sort)
  then show ?thesis unfolding xs by (simp only: py_max.simps Max.set_eq_fold)
qed

lemma index_in_range:
  assumes "0 < n"
  shows "n div 2 < n" "int_of_product n double_0_95 < n" "int_of_product n double_0_99 < n"
    "int_of_product n double_0_995 < n"
proof -
  show "n div 2 < n" using assms by simp
  show c: "int_of_product n double_0_995 < n" using assms by (rule index_facts(4))
  show b: "int_of_product n double_0_99 < n" using index_facts(3) [of n] c by simp
  show "int_of_product n double_0_95 < n" using index_facts(2) [of n] b by simp
qed

lemma latency_stats_nonempty:
  assumes "l \<noteq> []"
  shows "latency_stats l =
    Inr \<lparr>avg_latency = sum_list (sort l) / real (length l),
         median_latency = sort l ! (length l div 2),
         p95_latency = sort l ! int_of_product (length l) double_0_95,
         p99_latency = sort l ! int_of_product (length l) double_0_99,
         p99_5_latency = sort l ! int_of_product (length l) double_0_995,
         min_latency = Min (set l), max_latency = Max (set l)\<rparr>"
proof -
  from assms have n: "0 < length l" by simp
  from assms have "sort l \<noteq> []" by (metis length_0_conv length_sort)
  then show ?thesis
    using assms index_in_range [OF n]
    by (simp add: latency_stats_def Let_def and_then_def true_div_def getitem_def
        py_min_sort py_max_sort)
qed

lemma latency_stats_empty:
  "latency_stats [] = Inr \<lparr>avg_latency = 0, median_latency = 0, p95_latency = 0,
     p99_latency = 0, p99_5_latency = 0, min_latency = 0, max_latency = 0\<rparr>"
  by (simp add: latency_stats_def)

lemma latency_stats_total: "\<exists>r. latency_stats l = Inr r"
  by (cases "l = []") (simp_all add: latency_stats_empty latency_stats_nonempty)

lemma collect_acc:
  "collect bots (ls, s, r) =
     (ls @ concat (map latencies bots), s + sum_list (map packets_sent bots),
      r + sum_list (map packets_received bots))"
  by (induction bots arbitrary: ls s r) simp_all

lemma report_ok:
  assumes "num_users \<noteq> 0"
  shows "\<exists>stats. latency_stats (concat (map latencies bots_stopped)) = Inr stats \<and>
    run_benchmark_report num_users d bots_settled bots_stopped =
      Inr \<lparr>users = num_users, duration = d,
           connected_count = length (filter connected bots_settled),
           spawned_count = length (filter spawned bots_settled),
           total_packets_sent = sum_list (map packets_sent bots_stopped),
           total_packets_received = sum_list (map packets_received bots_stopped),
           latency = stats,
           success_rate = real (length (filter connected bots_settled)) / real_of_int num_users * 100\<rparr>"
proof -
  obtain stats where "latency_stats (concat (map latencies bots_stopped)) = Inr stats"
    using latency_stats_total by blast
  then show ?thesis using assms
    by (simp add: run_benchmark_report_def collect_acc and_then_def true_div_def Let_def)
qed

lemma report_zero_users:
  "run_benchmark_report 0 d bots_settled bots_stopped = Inl ZeroDivisionError"
proof -
  obtain stats where "latency_stats (concat (map latencies bots_stopped)) = Inr stats"
    using latency_stats_total by blast
  then show ?thesis
    by (simp add: run_benchmark_report_def collect_acc and_then_def true_div_def Let_def)
qed

lemma floor_fraction: "nat \<lfloor>real a / real b * real n\<rfloor> = (a * n) div b"
proof -
  have "real a / real b * real n = real (a * n) / real b" by simp
  then show ?thesis by (simp only: floor_divide_of_nat_eq nat_int)
qed

lemma floors:
  "nat \<lfloor>0.95 * real n\<rfloor> = (95 * n) div 100"
  "nat \<lfloor>0.99 * real n\<rfloor> = (99 * n) div 100"
  "nat \<lfloor>0.995 * real n\<rfloor> = (199 * n) div 200"
  using floor_fraction [of 95 100 n] floor_fraction [of 99 100 n] floor_fraction [of 199 200 n]
  by simp_all

lemma index_is_floor:
  assumes "n < 2 ^ 40"
  shows "int_of_product n double_0_95 = nat \<lfloor>0.95 * real n\<rfloor>"
    and "int_of_product n double_0_99 = nat \<lfloor>0.99 * real n\<rfloor>"
    and "int_of_product n double_0_995 = nat \<lfloor>0.995 * real n\<rfloor>"
  using assms
  by (simp_all only: floors int_of_product_0_95 int_of_product_0_99 int_of_product_0_995)

text \<open>
  C3: for every non-empty pooled list the median is read at index \<open>N div 2\<close> of the
  sorted samples and the percentiles 95, 99 and 99.5 at the index that is the product
  \<open>p * N\<close>, formed in double precision as the code forms it, cut to an integer. For
  fewer than \<open>2 ^ 40\<close> samples this index is the floor of the exact product.
\<close>

theorem percentile_selection:
  assumes "l \<noteq> []"
  shows "\<exists>r. latency_stats l = Inr r
    \<and> median_latency r = sort l ! (length l div 2)
    \<and> p95_latency r = sort l ! int_of_product (length l) double_0_95
    \<and> p99_latency r = sort l ! int_of_product (length l) double_0_99
    \<and> p99_5_latency r = sort l ! int_of_product (length l) double_0_995
    \<and> (length l < 2 ^ 40 \<longrightarrow>
          int_of_product (length l) double_0_95 = nat \<lfloor>0.95 * real (length l)\<rfloor>
        \<and> int_of_product (length l) double_0_99 = nat \<lfloor>0.99 * real (length l)\<rfloor>
        \<and> int_of_product (length l) double_0_995 = nat \<lfloor>0.995 * real (length l)\<rfloor>)"
proof -
  have "length l < 2 ^ 40 \<longrightarrow>
          int_of_product (length l) double_0_95 = nat \<lfloor>0.95 * real (length l)\<rfloor>
        \<and> int_of_product (length l) double_0_99 = nat \<lfloor>0.99 * real (length l)\<rfloor>
        \<and> int_of_product (length l) double_0_995 = nat \<lfloor>0.995 * real (length l)\<rfloor>"
    using index_is_floor [of "length l"] by blast
  with assms show ?thesis
    by (simp only: latency_stats_nonempty latency_summary.simps sum.inject simp_thms ex_simps)
qed

text \<open>
  The scenario of C3: for the samples 10, 20, 30, 40, 100 the median is 30 and the
  percentiles 95, 99 and 99.5 are all 100.
\<close>

theorem percentile_scenario:
  "\<exists>r. latency_stats [10, 20, 30, 40, 100] = Inr r
     \<and> median_latency r = 30 \<and> p95_latency r = 100 \<and> p99_latency r = 100
     \<and> p99_5_latency r = 100"
proof -
  let ?l = "[10, 20, 30, 40, 100] :: real list"
  have len: "length ?l = 5" by simp
  have srt: "sort ?l = ?l" by simp
  from percentile_selection [of ?l] obtain r
    where r: "latency_stats ?l = Inr r"
      and m: "median_latency r = sort ?l ! (length ?l div 2)"
      and p: "p95_latency r = sort ?l ! int_of_product (length ?l) double_0_95"
        "p99_latency r = sort ?l ! int_of_product (length ?l) double_0_99"
        "p99_5_latency r = sort ?l ! int_of_product (length ?l) double_0_995"
      and i: "length ?l < 2 ^ 40 \<longrightarrow>
          int_of_product (length ?l) double_0_95 = nat \<lfloor>0.95 * real (length ?l)\<rfloor>
        \<and> int_of_product (length ?l) double_0_99 = nat \<lfloor>0.99 * real (length ?l)\<rfloor>
        \<and> int_of_product (length ?l) double_0_995 = nat \<lfloor>0.995 * real (length ?l)\<rfloor>"
    by blast
  from i have "int_of_product 5 double_0_95 = 4" "int_of_product 5 double_0_99 = 4"
    "int_of_product 5 double_0_995 = 4"
    unfolding len by (simp_all add: floors)
  with m p have "median_latency r = 30" "p95_latency r = 100" "p99_latency r = 100"
    "p99_5_latency r = 100"
    unfolding len srt by simp_all
  with r show ?thesis by blast
qed

text \<open>
  C4: for an empty pooled list the statistics block does not fail and all seven
  statistics are 0; a level with at least one user and no sample returns its record with
  these statistics.
\<close>

theorem empty_pool_statistics_zero:
  "latency_stats [] = Inr \<lparr>avg_latency = 0, median_latency = 0, p95_latency = 0,
       p99_latency = 0, p99_5_latency = 0, min_latency = 0, max_latency = 0\<rparr>
   \<and> (num_users \<noteq> 0 \<and> concat (map latencies bots_stopped) = [] \<longrightarrow>
        (\<exists>r. run_benchmark_report num_users d bots_settled bots_stopped = Inr r
           \<and> latency r = \<lparr>avg_latency = 0, median_latency = 0, p95_latency = 0,
                p99_latency = 0, p99_5_latency = 0, min_latency = 0, max_latency = 0\<rparr>))"
proof (intro conjI impI)
  show "latency_stats [] = Inr \<lparr>avg_latency = 0, median_latency = 0, p95_latency = 0,
       p99_latency = 0, p99_5_latency = 0, min_latency = 0, max_latency = 0\<rparr>"
    by (rule latency_stats_empty)
next
  assume a: "num_users \<noteq> 0 \<and> concat (map latencies bots_stopped) = []"
  then have nz: "num_users \<noteq> 0" and e: "concat (map latencies bots_stopped) = []"
    by blast+
  from report_ok [OF nz, of bots_stopped d bots_settled]
  obtain stats r where st: "latency_stats (concat (map latencies bots_stopped)) = Inr stats"
    and rep: "run_benchmark_report num_users d bots_settled bots_stopped = Inr r"
    and r: "latency r = stats"
    by force
  from st have "stats = \<lparr>avg_latency = 0, median_latency = 0, p95_latency = 0,
       p99_latency = 0, p99_5_latency = 0, min_latency = 0, max_latency = 0\<rparr>"
    unfolding e latency_stats_empty by simp
  with rep r show "\<exists>r. run_benchmark_report num_users d bots_settled bots_stopped = Inr r
           \<and> latency r = \<lparr>avg_latency = 0, median_latency = 0, p95_latency = 0,
                p99_latency = 0, p99_5_latency = 0, min_latency = 0, max_latency = 0\<rparr>"
    by blast
qed

theorem empty_pool_one_idle_bot:
  "\<exists>r. run_benchmark_report 1 120 [new_bot 0] [new_bot 0] = Inr r
     \<and> latency r = \<lparr>avg_latency = 0, median_latency = 0, p95_latency = 0,
          p99_latency = 0, p99_5_latency = 0, min_latency = 0, max_latency = 0\<rparr>"
  using empty_pool_statistics_zero [of 1 "[new_bot 0]" 120 "[new_bot 0]"]
  by (simp add: new_bot_def)

text \<open>
  C5: for a non-empty pooled list the statistics are ordered: minimum, median, the
  percentiles 95, 99 and 99.5, maximum.
\<close>

theorem statistics_ordered:
  assumes "l \<noteq> []"
  shows "\<exists>r. latency_stats l = Inr r
    \<and> min_latency r \<le> median_latency r \<and> median_latency r \<le> p95_latency r
    \<and> p95_latency r \<le> p99_latency r \<and> p99_latency r \<le> p99_5_latency r
    \<and> p99_5_latency r \<le> max_latency r"
proof -
  from assms have n: "0 < length l" by simp
  note idx = index_in_range [OF n]
  have len: "length (sort l) = length l" by simp
  have srt: "sorted (sort l)" by simp
  have mem: "sort l ! i \<in> set l" if "i < length l" for i
    using that nth_mem [of i "sort l"] by simp
  have "Min (set l) \<le> sort l ! (length l div 2)"
    using mem [OF idx(1)] by simp
  moreover have "sort l ! (length l div 2) \<le> sort l ! int_of_product (length l) double_0_95"
    using srt index_facts(1) idx(2) by (simp add: sorted_nth_mono)
  moreover have "sort l ! int_of_product (length l) double_0_95
      \<le> sort l ! int_of_product (length l) double_0_99"
    using srt index_facts(2) idx(3) by (simp add: sorted_nth_mono)
  moreover have "sort l ! int_of_product (length l) double_0_99
      \<le> sort l ! int_of_product (length l) double_0_995"
    using srt index_facts(3) idx(4) by (simp add: sorted_nth_mono)
  moreover have "sort l ! int_of_product (length l) double_0_995 \<le> Max (set l)"
    using mem [OF idx(4)] by simp
  ultimately show ?thesis
    using assms by (simp add: latency_stats_nonempty)
qed

theorem statistics_ordered_example:
  "\<exists>r. latency_stats [3, 1, 2] = Inr r
    \<and> min_latency r \<le> median_latency r \<and> median_latency r \<le> p95_latency r
    \<and> p95_latency r \<le> p99_latency r \<and> p99_latency r \<le> p99_5_latency r
    \<and> p99_5_latency r \<le> max_latency r"
  using statistics_ordered [of "[3, 1, 2]"] by simp

text \<open>
  C9: with a user count of 0 \<^verbatim>\<open>run_benchmark\<close> raises \<^verbatim>\<open>ZeroDivisionError\<close>
  when it prints the success rate; with at least one user it returns a record.
\<close>

theorem zero_users_division_by_zero:
  "run_benchmark_report 0 d bots_settled bots_stopped = Inl ZeroDivisionError
   \<and> (1 \<le> num_users \<longrightarrow>
        (\<exists>r. run_benchmark_report num_users d bots_settled bots_stopped = Inr r))"
  using report_ok [of num_users bots_stopped d bots_settled]
  by (auto simp: report_zero_users)

theorem one_user_report_returns:
  "run_benchmark_report 0 120 (create_bots 0) (create_bots 0) = Inl ZeroDivisionError
   \<and> (\<exists>r. run_benchmark_report 1 120 (create_bots 1) (create_bots 1) = Inr r)"
  using zero_users_division_by_zero [of 120 "create_bots 0" "create_bots 0" 1]
    zero_users_division_by_zero [of 120 "create_bots 1" "create_bots 1" 1]
  by simp

text \<open>
  C10: for a length of at least 1 the four indices that the aggregator computes are below
  the length, so the statistics block never raises \<^verbatim>\<open>IndexError\<close>; the read that
  would raise it is the one on the empty list, which the guard excludes.
\<close>

theorem percentile_indices_in_range:
  "(1 \<le> n \<longrightarrow> n div 2 < n \<and> int_of_product n double_0_95 < n
       \<and> int_of_product n double_0_99 < n \<and> int_of_product n double_0_995 < n)
   \<and> latency_stats l \<noteq> Inl IndexError
   \<and> getitem (sort ([] :: real list)) (int_of_product 0 double_0_95) = Inl IndexError"
proof (intro conjI impI)
  assume "1 \<le> n"
  then have n: "0 < n" by simp
  from index_in_range [OF n]
  show "n div 2 < n" "int_of_product n double_0_95 < n" "int_of_product n double_0_99 < n"
    "int_of_product n double_0_995 < n" by simp_all
next
  show "latency_stats l \<noteq> Inl IndexError"
    using latency_stats_total [of l] by auto
next
  show "getitem (sort ([] :: real list)) (int_of_product 0 double_0_95) = Inl IndexError"
    by (simp add: getitem_def)
qed

theorem percentile_indices_of_five:
  "5 div 2 < (5::nat) \<and> int_of_product 5 double_0_95 < 5
       \<and> int_of_product 5 double_0_99 < 5 \<and> int_of_product 5 double_0_995 < 5"
  using percentile_indices_in_range [of 5] by simp

subsection \<open>Sessions\<close>

lemmas session_defs =
  upd_bot_def count_sent_def count_received_def disconnect_def cancel_receive_task_def
  loop_test_def call_spawn_bot_def spawn_sent_def next_poll_def recv_loop_test_def on_frame_def

lemma init_session_inv: "session_inv (init_session i)"
  by (simp add: session_inv_def init_session_def new_bot_def untouched_def)

lemma step_session_inv_aux:
  "session_inv s \<Longrightarrow> (case step e s of None \<Rightarrow> True | Some s' \<Rightarrow> session_inv s')"
  unfolding session_inv_def
  by (cases e; cases "pc s"; cases "rpc s")
    (simp_all add: untouched_def session_defs Let_def split: nat.split)

lemma step_session_inv:
  assumes "session_inv s" and "step e s = Some s'"
  shows "session_inv s'"
  using step_session_inv_aux [OF assms(1), of e] assms(2) by simp

lemma exec_session_inv: "session_inv s \<Longrightarrow> exec es s = Some s' \<Longrightarrow> session_inv s'"
proof (induction es arbitrary: s)
  case Nil
  then show ?case by simp
next
  case (Cons e es)
  then show ?case
    by (auto split: option.splits dest: step_session_inv)
qed

lemma step_failed_inv:
  assumes "failed_inv s" and "step e s = Some s'"
  shows "failed_inv s'"
proof (cases "e = DriverStop")
  case True
  with assms show ?thesis
    by (auto simp: failed_inv_def untouched_def upd_bot_def)
next
  case False
  with assms(1) have "step e s = None"
    by (cases e) (simp_all add: failed_inv_def)
  with assms(2) show ?thesis by simp
qed

lemma exec_failed_inv: "failed_inv s \<Longrightarrow> exec es s = Some s' \<Longrightarrow> failed_inv s'"
proof (induction es arbitrary: s)
  case Nil
  then show ?case by simp
next
  case (Cons e es)
  then show ?case
    by (auto split: option.splits dest: step_failed_inv)
qed

lemma exec_append:
  "exec (xs @ ys) s = (case exec xs s of None \<Rightarrow> None | Some s' \<Rightarrow> exec ys s')"
  by (induction xs arbitrary: s) (simp_all split: option.splits)

lemma failed_session_stuck: "failed_inv s \<Longrightarrow> e \<noteq> DriverStop \<Longrightarrow> step e s = None"
  by (cases e) (simp_all add: failed_inv_def)

lemma exec_after_connect_failure:
  assumes run: "exec evs (init_session i) = Some s" and failed: "ConnectFailed \<in> set evs"
  shows "failed_inv s"
proof -
  from failed obtain pre post where evs: "evs = pre @ ConnectFailed # post"
    by (auto dest: split_list)
  from run obtain s1 s2 where s1: "exec pre (init_session i) = Some s1"
    and s2: "step ConnectFailed s1 = Some s2" and s: "exec post s2 = Some s"
    unfolding evs by (auto simp: exec_append split: option.splits)
  have inv1: "session_inv s1"
    using init_session_inv s1 by (rule exec_session_inv)
  from s2 have "pc s1 = AwaitConnect" and "s2 = s1\<lparr>pc := Returned\<rparr>"
    by (auto split: if_splits)
  with inv1 have "failed_inv s2"
    by (simp add: session_inv_def failed_inv_def)
  then show ?thesis using s by (rule exec_failed_inv)
qed

lemma step_bot_id_aux:
  "case step e s of None \<Rightarrow> True | Some s' \<Rightarrow> bot_id (bot s') = bot_id (bot s)"
  by (cases e; cases "pc s")
    (simp_all add: session_defs Let_def split: nat.split recv_pc.split)

lemma step_bot_id: "step e s = Some s' \<Longrightarrow> bot_id (bot s') = bot_id (bot s)"
  using step_bot_id_aux [where e = e and s = s] by simp

lemma exec_bot_id: "exec es s = Some s' \<Longrightarrow> bot_id (bot s') = bot_id (bot s)"
proof (induction es arbitrary: s)
  case Nil
  then show ?case by simp
next
  case (Cons e es)
  then show ?case
    by (auto split: option.splits dest: step_bot_id)
qed

text \<open>
  C2, against the claim: a run in which both Spawn sends fail while the receive task
  reads a frame with first byte 0. \<^verbatim>\<open>spawned\<close> is set during the sleep after the
  first \<^verbatim>\<open>spawn_bot\<close>, and the session ends having sent the Init frame only.
\<close>

theorem spawned_without_spawn_frame:
  "exec [Start, ConnectOk, SendOk, Received [7], Slept 0 True, SendFailed,
         RecvTaskStart, RecvTaskReceived [0], Slept 0 True, SendFailed, Slept 0 False,
         RecvTaskFailed, CloseDone] (init_session 0)
   = Some \<lparr>bot = \<lparr>bot_id = 0, websocket = True, running = False, connected = True,
                   spawned = True, latencies = [], packets_sent = 1, packets_received = 2\<rparr>,
            pc = Returned, rpc = Finished, connect_attempts = 1, spawn_attempts = 2,
            spawn_frames_sent = 0\<rparr>"
  by (simp add: init_session_def new_bot_def session_defs first_byte_is_def)

text \<open>
  C2, as amended: in every run of a session, under every interleaving of its two tasks,
  \<^verbatim>\<open>spawned\<close> is true only when \<^verbatim>\<open>connected\<close> is true, the Init frame has been
  sent, the receive task has been created and \<^verbatim>\<open>spawn_bot\<close> has been called at
  least once. Whether a Spawn frame has been sent by then is left open.
\<close>

theorem spawned_needs_connection_and_spawn_attempt:
  assumes "exec evs (init_session i) = Some s" and "spawned (bot s)"
  shows "connected (bot s) \<and> rpc s \<noteq> NotCreated \<and> 0 < spawn_attempts s
    \<and> 0 < packets_sent (bot s)"
proof -
  have "session_inv s"
    using init_session_inv assms(1) by (rule exec_session_inv)
  with assms(2) show ?thesis
    by (simp add: session_inv_def)
qed

text \<open>A run in which the first Spawn frame is sent and then a frame with first byte 2 arrives.\<close>

theorem spawned_after_first_spawn:
  "exec [Start, ConnectOk, SendOk, Received [7], Slept 0 True, SendOk,
         RecvTaskStart, RecvTaskReceived [2]] (init_session 0)
   = Some \<lparr>bot = \<lparr>bot_id = 0, websocket = True, running = True, connected = True,
                   spawned = True, latencies = [], packets_sent = 2, packets_received = 2\<rparr>,
            pc = AwaitSleep1, rpc = AwaitRecv, connect_attempts = 1, spawn_attempts = 1,
            spawn_frames_sent = 1\<rparr>
   \<and> connected \<lparr>bot_id = 0, websocket = True, running = True, connected = True,
                   spawned = True, latencies = [], packets_sent = 2, packets_received = 2\<rparr>"
  using spawned_needs_connection_and_spawn_attempt
    [of "[Start, ConnectOk, SendOk, Received [7], Slept 0 True, SendOk,
         RecvTaskStart, RecvTaskReceived [2]]" 0
      "\<lparr>bot = \<lparr>bot_id = 0, websocket = True, running = True, connected = True,
                   spawned = True, latencies = [], packets_sent = 2, packets_received = 2\<rparr>,
            pc = AwaitSleep1, rpc = AwaitRecv, connect_attempts = 1, spawn_attempts = 1,
            spawn_frames_sent = 1\<rparr>"]
  by (simp add: init_session_def new_bot_def session_defs first_byte_is_def)

lemma report_without_untouched:
  assumes "untouched b"
  shows "run_benchmark_report n d (pre @ b # post) stopped
           = run_benchmark_report n d (pre @ post) stopped"
    and "run_benchmark_report n d settled (pre @ b # post)
           = run_benchmark_report n d settled (pre @ post)"
  using assms by (simp_all add: run_benchmark_report_def collect_acc untouched_def)

text \<open>
  C7: a session whose connect fails has no latency sample, is neither connected nor
  spawned, has made its single connect attempt and has returned: no event but the
  driver's clearing of \<^verbatim>\<open>running\<close> can happen to it. The report of the level is the
  one of the other bots alone, whichever of the two readings holds it, and a level with a
  non-zero user count returns its record.
\<close>

theorem connect_failure_is_local:
  assumes "exec evs (init_session i) = Some s" and "ConnectFailed \<in> set evs"
  shows "latencies (bot s) = [] \<and> \<not> connected (bot s) \<and> \<not> spawned (bot s)
    \<and> connect_attempts s = 1 \<and> pc s = Returned
    \<and> (\<forall>e. e \<noteq> DriverStop \<longrightarrow> step e s = None)
    \<and> (\<forall>n d pre post stopped.
          run_benchmark_report n d (pre @ bot s # post) stopped
            = run_benchmark_report n d (pre @ post) stopped)
    \<and> (\<forall>n d settled pre post.
          run_benchmark_report n d settled (pre @ bot s # post)
            = run_benchmark_report n d settled (pre @ post))
    \<and> (\<forall>n d settled stopped. n \<noteq> 0 \<longrightarrow>
          (\<exists>r. run_benchmark_report n d settled stopped = Inr r))"
proof -
  have f: "failed_inv s"
    using assms by (rule exec_after_connect_failure)
  then have u: "untouched (bot s)" by (simp add: failed_inv_def)
  have ok: "\<exists>r. run_benchmark_report n d settled stopped = Inr r" if "n \<noteq> 0"
    for n d settled stopped
    using report_ok [OF that, of stopped d settled] by blast
  from f u show ?thesis
    using failed_session_stuck [OF f] report_without_untouched [OF u] ok
    by (simp add: failed_inv_def untouched_def)
qed

text \<open>The session with id 1 fails to connect and is stopped by the driver later.\<close>

theorem connect_failure_of_session_one:
  "exec [Start, ConnectFailed, DriverStop] (init_session 1)
     = Some \<lparr>bot = (new_bot 1)\<lparr>running := False\<rparr>, pc = Returned, rpc = NotCreated,
              connect_attempts = 1, spawn_attempts = 0, spawn_frames_sent = 0\<rparr>
   \<and> latencies ((new_bot 1)\<lparr>running := False\<rparr>) = []
   \<and> \<not> connected ((new_bot 1)\<lparr>running := False\<rparr>)
   \<and> \<not> spawned ((new_bot 1)\<lparr>running := False\<rparr>)"
  using connect_failure_is_local [of "[Start, ConnectFailed, DriverStop]" 1
      "\<lparr>bot = (new_bot 1)\<lparr>running := False\<rparr>, pc = Returned, rpc = NotCreated,
              connect_attempts = 1, spawn_attempts = 0, spawn_frames_sent = 0\<rparr>"]
  by (simp add: init_session_def new_bot_def session_defs)

subsection \<open>Aggregation and the orchestrator\<close>

text \<open>
  C6: the collecting loop returns the concatenation of the bots' sample lists in the order
  of the list, and the sums of their two counters; no sample is added or lost. The list
  is created in the order of the ids, a run of a session keeps the id of its bot, and the
  record of the level carries the two sums.
\<close>

theorem aggregation_lossless:
  "collect bots ([], 0, 0)
     = (concat (map latencies bots), sum_list (map packets_sent bots),
        sum_list (map packets_received bots))
   \<and> length (concat (map latencies bots)) = sum_list (map (\<lambda>b. length (latencies b)) bots)
   \<and> map bot_id (create_bots num_users) = [0 ..< nat num_users]
   \<and> (exec evs (init_session i) = Some s \<longrightarrow> bot_id (bot s) = i)
   \<and> (run_benchmark_report num_users d bots_settled bots = Inr r \<longrightarrow>
        total_packets_sent r = sum_list (map packets_sent bots)
      \<and> total_packets_received r = sum_list (map packets_received bots))"
proof (intro conjI impI)
  show "collect bots ([], 0, 0)
     = (concat (map latencies bots), sum_list (map packets_sent bots),
        sum_list (map packets_received bots))"
    by (simp add: collect_acc)
  show "length (concat (map latencies bots)) = sum_list (map (\<lambda>b. length (latencies b)) bots)"
    by (simp add: length_concat comp_def)
  show "map bot_id (create_bots num_users) = [0 ..< nat num_users]"
    by (simp add: create_bots_def new_bot_def comp_def map_idI)
next
  assume "exec evs (init_session i) = Some s"
  then have "bot_id (bot s) = bot_id (bot (init_session i))" by (rule exec_bot_id)
  then show "bot_id (bot s) = i" by (simp add: init_session_def new_bot_def)
next
  assume r: "run_benchmark_report num_users d bots_settled bots = Inr r"
  then have "num_users \<noteq> 0"
    using report_zero_users [of d bots_settled bots] by auto
  from report_ok [OF this, of bots d bots_settled] r
  show "total_packets_sent r = sum_list (map packets_sent bots)"
    and "total_packets_received r = sum_list (map packets_received bots)"
    by auto
qed

text \<open>Two bots with three samples between them.\<close>

theorem aggregation_of_two_bots:
  "collect [(new_bot 0)\<lparr>latencies := [51, 52], packets_sent := 5, packets_received := 7\<rparr>,
            (new_bot 1)\<lparr>latencies := [50], packets_sent := 4, packets_received := 1\<rparr>]
       ([], 0, 0) = ([51, 52, 50], 9, 8)
   \<and> bot_id (bot (init_session 1)) = 1
   \<and> (\<exists>r. run_benchmark_report 2 120 (create_bots 2)
          [(new_bot 0)\<lparr>latencies := [51, 52], packets_sent := 5, packets_received := 7\<rparr>,
           (new_bot 1)\<lparr>latencies := [50], packets_sent := 4, packets_received := 1\<rparr>] = Inr r
        \<and> total_packets_sent r = 9 \<and> total_packets_received r = 8)"
proof -
  let ?bots = "[(new_bot 0)\<lparr>latencies := [51, 52], packets_sent := 5, packets_received := 7\<rparr>,
            (new_bot 1)\<lparr>latencies := [50], packets_sent := 4, packets_received := 1\<rparr>]"
  obtain r where r: "run_benchmark_report 2 120 (create_bots 2) ?bots = Inr r"
    using report_ok [of 2 ?bots 120 "create_bots 2"] by auto
  from aggregation_lossless [of ?bots 2 "[]" 1 "init_session 1" 120 "create_bots 2" r] r
  have "collect ?bots ([], 0, 0) = ([51, 52, 50], 9, 8)"
    and "bot_id (bot (init_session 1)) = 1"
    and "total_packets_sent r = 9 \<and> total_packets_received r = 8"
    by simp_all
  with r show ?thesis by blast
qed

lemma run_levels_ok:
  "\<forall>n \<in> set ns. n \<noteq> 0 \<and> world n \<noteq> LevelInterrupted \<Longrightarrow>
     \<exists>rs. run_levels world ns acc = Inr (acc @ rs) \<and> map users rs = ns"
proof (induction ns arbitrary: acc)
  case Nil
  then show ?case by simp
next
  case (Cons n ns)
  from Cons.prems have n: "n \<noteq> 0" and ran: "world n \<noteq> LevelInterrupted"
    and ns: "\<forall>n \<in> set ns. n \<noteq> 0 \<and> world n \<noteq> LevelInterrupted"
    by auto
  from ran obtain d bs be where w: "world n = LevelRan d bs be"
    by (cases "world n") auto
  from report_ok [OF n, of be d bs] obtain r
    where r: "run_benchmark_report n d bs be = Inr r" and u: "users r = n"
    by force
  from Cons.IH [OF ns, of "acc @ [r]"] obtain rs
    where "run_levels world ns (acc @ [r]) = Inr ((acc @ [r]) @ rs)" and "map users rs = ns"
    by blast
  then have "run_levels world (n # ns) acc = Inr (acc @ (r # rs)) \<and> map users (r # rs) = n # ns"
    using w r u by (simp add: and_then_def)
  then show ?case by (intro exI [of _ "r # rs"])
qed

lemma run_levels_interrupted:
  "0 \<notin> set ns \<Longrightarrow> \<exists>n \<in> set ns. world n = LevelInterrupted \<Longrightarrow>
     run_levels world ns acc = Inl KeyboardInterrupt"
proof (induction ns arbitrary: acc)
  case Nil
  then show ?case by simp
next
  case (Cons n ns)
  show ?case
  proof (cases "world n")
    case LevelInterrupted
    then show ?thesis by simp
  next
    case (LevelRan d bs be)
    from Cons.prems have n: "n \<noteq> 0" and ns: "0 \<notin> set ns" by auto
    from Cons.prems LevelRan have later: "\<exists>n \<in> set ns. world n = LevelInterrupted" by auto
    from report_ok [OF n, of be d bs] obtain r
      where r: "run_benchmark_report n d bs be = Inr r"
      by force
    from Cons.IH [OF ns later, of "acc @ [r]"] LevelRan r show ?thesis
      by (simp add: and_then_def)
  qed
qed

lemma test_cases_values: "test_cases = [1, 100, 200, 300, 400, 500, 600, 700, 800, 900, 1000]"
  by (simp add: test_cases_def upt_rec)

text \<open>
  C8, against the claim: the probe succeeds and the standard input is at its end. The
  prompt raises \<^verbatim>\<open>EOFError\<close>, no level runs and no row is produced, although the
  server is reachable.
\<close>

theorem end_of_input_aborts_run:
  "main ProbeOk EndOfInput (\<lambda>n. LevelRan 120 (create_bots n) (create_bots n)) = Inl EOFError"
  by (simp add: main_def check_server_connection_def wait_for_enter_def and_then_def)

text \<open>
  C8, as amended: when the probe fails (timeout, refusal or another error), \<^verbatim>\<open>main\<close>
  prints the diagnostic and the notice of the abort and returns without a row, whatever
  the operator and the levels would have done. No failure of a session aborts the run:
  when the probe succeeds, the operator presses Enter and no interrupt arrives, every
  level of \<^verbatim>\<open>test_cases\<close> runs and yields its row. The run is also aborted, without
  a row, by the end of the input at the prompt and by an interrupt of the operator during
  the probe, at the prompt or during a level.
\<close>

theorem preflight_failure_aborts_run:
  "(probe = ProbeTimeout \<or> probe = ProbeRefused \<or> probe = ProbeOtherError \<longrightarrow>
      (\<exists>notes. check_server_connection probe = Inr (False, notes) \<and> notes \<noteq> []
         \<and> main probe operator world
             = Inr \<lparr>printed = notes @ [BenchmarkAborted], rows = []\<rparr>))
   \<and> (probe = ProbeOk \<and> operator = EnterPressed
        \<and> (\<forall>n \<in> set test_cases. world n \<noteq> LevelInterrupted) \<longrightarrow>
        (\<exists>out. main probe operator world = Inr out \<and> map users (rows out) = test_cases
           \<and> length (rows out) = 11 \<and> BenchmarkAborted \<notin> set (printed out)))
   \<and> (probe = ProbeOk \<and> operator = EndOfInput \<longrightarrow>
        main probe operator world = Inl EOFError)
   \<and> (probe = ProbeInterrupted
        \<or> probe = ProbeOk \<and> operator = PromptInterrupted
        \<or> probe = ProbeOk \<and> operator = EnterPressed
            \<and> (\<exists>n \<in> set test_cases. world n = LevelInterrupted) \<longrightarrow>
        main probe operator world = Inl KeyboardInterrupt)"
proof (intro conjI impI)
  assume "probe = ProbeTimeout \<or> probe = ProbeRefused \<or> probe = ProbeOtherError"
  then show "\<exists>notes. check_server_connection probe = Inr (False, notes) \<and> notes \<noteq> []
         \<and> main probe operator world
             = Inr \<lparr>printed = notes @ [BenchmarkAborted], rows = []\<rparr>"
    by (auto simp: main_def check_server_connection_def and_then_def)
next
  assume a: "probe = ProbeOk \<and> operator = EnterPressed
        \<and> (\<forall>n \<in> set test_cases. world n \<noteq> LevelInterrupted)"
  have "0 \<notin> set test_cases" by (simp add: test_cases_values)
  with a have "\<forall>n \<in> set test_cases. n \<noteq> 0 \<and> world n \<noteq> LevelInterrupted" by metis
  from run_levels_ok [OF this, of "[]"] obtain rs
    where rs: "run_levels world test_cases [] = Inr rs" and u: "map users rs = test_cases"
    by auto
  from u have "length rs = length test_cases" by (metis length_map)
  then have "length rs = 11" by (simp add: test_cases_values)
  with rs u a show "\<exists>out. main probe operator world = Inr out
           \<and> map users (rows out) = test_cases
           \<and> length (rows out) = 11 \<and> BenchmarkAborted \<notin> set (printed out)"
    by (simp add: main_def check_server_connection_def wait_for_enter_def and_then_def)
next
  assume "probe = ProbeOk \<and> operator = EndOfInput"
  then show "main probe operator world = Inl EOFError"
    by (simp add: main_def check_server_connection_def wait_for_enter_def and_then_def)
next
  assume a: "probe = ProbeInterrupted
        \<or> probe = ProbeOk \<and> operator = PromptInterrupted
        \<or> probe = ProbeOk \<and> operator = EnterPressed
            \<and> (\<exists>n \<in> set test_cases. world n = LevelInterrupted)"
  have zero: "0 \<notin> set test_cases" by (simp add: test_cases_values)
  from a consider "probe = ProbeInterrupted"
    | "probe = ProbeOk" "operator = PromptInterrupted"
    | "probe = ProbeOk" "operator = EnterPressed" "\<exists>n \<in> set test_cases. world n = LevelInterrupted"
    by blast
  then show "main probe operator world = Inl KeyboardInterrupt"
  proof cases
    case 1
    then show ?thesis
      by (simp add: main_def check_server_connection_def and_then_def)
  next
    case 2
    then show ?thesis
      by (simp add: main_def check_server_connection_def wait_for_enter_def and_then_def)
  next
    case 3
    from run_levels_interrupted [OF zero 3(3), of "[]"] 3(1,2) show ?thesis
      by (simp add: main_def check_server_connection_def wait_for_enter_def and_then_def)
  qed
qed

text \<open>
  The scenario of C8, the probe times out, and a run in which the probe succeeds, the
  operator presses Enter and every level runs with idle bots.
\<close>

theorem preflight_timeout_no_rows:
  "main ProbeTimeout EnterPressed (\<lambda>n. LevelRan 120 (create_bots n) (create_bots n))
     = Inr \<lparr>printed = [ConnectTimedOut, HowToStartServer, BenchmarkAborted], rows = []\<rparr>
   \<and> (\<exists>out. main ProbeOk EnterPressed (\<lambda>n. LevelRan 120 (create_bots n) (create_bots n))
          = Inr out \<and> map users (rows out) = test_cases \<and> length (rows out) = 11)"
  using
    preflight_failure_aborts_run
      [of ProbeTimeout EnterPressed "\<lambda>n. LevelRan 120 (create_bots n) (create_bots n)"]
    preflight_failure_aborts_run
      [of ProbeOk EnterPressed "\<lambda>n. LevelRan 120 (create_bots n) (create_bots n)"]
  by (auto simp: check_server_connection_def)

end
